theory Spec2Isabelle
  imports Complex_Main "HOL-Library.AList"
begin

section \<open>Data model\<close>

subsection \<open>Numbers\<close>

text \<open>
  A JavaScript \<^verbatim>\<open>number\<close>: a finite value, one of the two infinities, or \<^verbatim>\<open>NaN\<close>. The
  store never does arithmetic on a progress value, it only compares two of them and takes
  a maximum, and both are exact on doubles, so a finite value is a \<^typ>\<open>real\<close>. The two
  zeros are one value.
\<close>

datatype number = Finite real | PosInf | NegInf | NaN

text \<open>
  \<open>a < b\<close> is the comparison \<^verbatim>\<open>a < b\<close> of JavaScript (and \<open>a > b\<close> is \<^verbatim>\<open>a > b\<close>): false as
  soon as one side is \<^verbatim>\<open>NaN\<close>. \<open>a \<le> b\<close> says that \<open>a\<close> and \<open>b\<close> are the same value or
  \<open>a < b\<close>; on two values that are not \<^verbatim>\<open>NaN\<close> it is \<^verbatim>\<open>a <= b\<close>.
\<close>

instantiation number :: order
begin

definition less_number :: "number \<Rightarrow> number \<Rightarrow> bool" where
  "less_number a b =
     (case a of
        Finite x \<Rightarrow> (case b of Finite y \<Rightarrow> x < y | PosInf \<Rightarrow> True | NegInf \<Rightarrow> False | NaN \<Rightarrow> False)
      | PosInf \<Rightarrow> False
      | NegInf \<Rightarrow> (case b of Finite y \<Rightarrow> True | PosInf \<Rightarrow> True | NegInf \<Rightarrow> False | NaN \<Rightarrow> False)
      | NaN \<Rightarrow> False)"

definition less_eq_number :: "number \<Rightarrow> number \<Rightarrow> bool" where
  "less_eq_number a b = (a = b \<or> a < b)"

instance
proof
  fix x y z :: number
  show "(x < y) = (x \<le> y \<and> \<not> y \<le> x)"
    by (cases x; cases y) (auto simp: less_eq_number_def less_number_def)
  show "x \<le> x"
    by (simp add: less_eq_number_def)
  show "x \<le> y \<Longrightarrow> y \<le> z \<Longrightarrow> x \<le> z"
    by (cases x; cases y; cases z) (auto simp: less_eq_number_def less_number_def)
  show "x \<le> y \<Longrightarrow> y \<le> x \<Longrightarrow> x = y"
    by (cases x; cases y) (auto simp: less_eq_number_def less_number_def)
qed

end

text \<open>
  \<^verbatim>\<open>Math.max(...xs)\<close>: it starts from \<^verbatim>\<open>-Infinity\<close>, which is its value on no argument,
  takes each argument that is greater than the highest so far, and is \<^verbatim>\<open>NaN\<close> as soon as
  one argument is.
\<close>

definition Math_max :: "number list \<Rightarrow> number" where
  "Math_max xs =
     fold (\<lambda>x highest. if x = NaN \<or> highest = NaN then NaN
                         else if x > highest then x else highest) xs NegInf"

subsection \<open>Records\<close>

text \<open>
  The types of \<^verbatim>\<open>backend/src/types\<close>. \<^verbatim>\<open>ProgressRecord.videoId\<close> is declared \<^verbatim>\<open>string\<close>, but \<^verbatim>\<open>processCronJob\<close> takes it from
  \<^verbatim>\<open>key.split('-')\<close> by destructuring, which yields \<^verbatim>\<open>undefined\<close> for a key without a
  hyphen; the field is therefore an option, \<open>None\<close> standing for \<^verbatim>\<open>undefined\<close>.
\<close>

record ProgressRecord =
  videoId :: "string option"
  userId :: string
  furthestSeconds :: number
  updatedAt :: string

text \<open>
  The argument of \<^verbatim>\<open>addToQueue\<close> (the request body of \<^verbatim>\<open>POST /api/progress/queue\<close>), and
  the queue item, which is the body spread into a new object with \<^verbatim>\<open>id\<close> and
  \<^verbatim>\<open>createdAt\<close> added.
\<close>

record Body =
  videoId :: string
  userId :: string
  progressSeconds :: number

record QueueItem = Body +
  item_id :: string
  createdAt :: string

text \<open>
  A JavaScript \<^verbatim>\<open>Map\<close> keeps its keys in insertion order, and \<^verbatim>\<open>processCronJob\<close> iterates
  over one: a map is an association list. \<^verbatim>\<open>Map.get\<close> is \<^const>\<open>map_of\<close>, \<^verbatim>\<open>Map.set\<close> is
  \<^const>\<open>AList.update\<close> (the value of a present key is replaced where it stands, a new key
  goes to the end), \<^verbatim>\<open>Map.clear\<close> gives \<open>[]\<close>.
\<close>

type_synonym queue_map = "(string \<times> QueueItem list) list"
type_synonym progress_map = "(string \<times> ProgressRecord) list"

subsection \<open>The file system and the console\<close>

text \<open>
  A file of the data directory is absent, or \<^verbatim>\<open>readFileSync\<close> throws on it, or its text is
  not what \<^verbatim>\<open>JSON.parse\<close> and \<^verbatim>\<open>Object.entries\<close> accept, or it holds a serialised
  collection. The serialisation itself is not modelled: a stored file holds the collection.
\<close>

datatype 'a disk_file = Missing | Unreadable | Malformed | Stored 'a

record data_dir =
  queueFile :: "queue_map disk_file"
  progressFile :: "progress_map disk_file"

text \<open>
  \<open>dataDir = None\<close>: the directory \<^verbatim>\<open>data\<close> does not exist. The three flags say which
  calls of \<^verbatim>\<open>mkdirSync\<close> and \<^verbatim>\<open>writeFileSync\<close> throw (a read-only or full disk).
\<close>

record filesystem =
  dataDir :: "data_dir option"
  mkdirFails :: bool
  queueWriteFails :: bool
  progressWriteFails :: bool

datatype error = IOError | SyntaxError | ValidationError

text \<open>
  The state the methods of \<^verbatim>\<open>StorageService\<close> read and write: the two private maps of the
  object, the file system, and the lines written to the console.
\<close>

record world =
  queue :: queue_map
  progress :: progress_map
  fs :: filesystem
  console :: "string list"

definition console_log :: "string \<Rightarrow> world \<Rightarrow> world" where
  "console_log msg w = w\<lparr>console := console w @ [msg]\<rparr>"

definition mkdirSync :: "filesystem \<Rightarrow> error + filesystem" where
  "mkdirSync f =
     (if mkdirFails f then Inl IOError
      else Inr (f\<lparr>dataDir := Some \<lparr>queueFile = Missing, progressFile = Missing\<rparr>\<rparr>))"

definition existsSync :: "filesystem \<Rightarrow> (data_dir \<Rightarrow> 'a disk_file) \<Rightarrow> bool" where
  "existsSync f path = (case dataDir f of None \<Rightarrow> False | Some d \<Rightarrow> path d \<noteq> Missing)"

text \<open>\<^verbatim>\<open>JSON.parse(readFileSync(path, 'utf-8'))\<close>, followed by \<^verbatim>\<open>Object.entries\<close>.\<close>

definition readJson :: "filesystem \<Rightarrow> (data_dir \<Rightarrow> 'a disk_file) \<Rightarrow> error + 'a" where
  "readJson f path =
     (case dataDir f of
        None \<Rightarrow> Inl IOError
      | Some d \<Rightarrow>
          (case path d of
             Missing \<Rightarrow> Inl IOError
           | Unreadable \<Rightarrow> Inl IOError
           | Malformed \<Rightarrow> Inl SyntaxError
           | Stored x \<Rightarrow> Inr x))"

definition writeQueueFile :: "queue_map \<Rightarrow> filesystem \<Rightarrow> error + filesystem" where
  "writeQueueFile q f =
     (case dataDir f of
        None \<Rightarrow> Inl IOError
      | Some d \<Rightarrow>
          if queueWriteFails f then Inl IOError
          else Inr (f\<lparr>dataDir := Some (d\<lparr>queueFile := Stored q\<rparr>)\<rparr>))"

definition writeProgressFile :: "progress_map \<Rightarrow> filesystem \<Rightarrow> error + filesystem" where
  "writeProgressFile p f =
     (case dataDir f of
        None \<Rightarrow> Inl IOError
      | Some d \<Rightarrow>
          if progressWriteFails f then Inl IOError
          else Inr (f\<lparr>dataDir := Some (d\<lparr>progressFile := Stored p\<rparr>)\<rparr>))"

section \<open>StorageService\<close>

subsection \<open>Construction\<close>

definition ensureDataDirectory :: "world \<Rightarrow> error + world" where
  "ensureDataDirectory w =
     (if dataDir (fs w) = None then
        (case mkdirSync (fs w) of
           Inl e \<Rightarrow> Inl e
         | Inr f \<Rightarrow> Inr (console_log ''directory created'' (w\<lparr>fs := f\<rparr>)))
      else Inr w)"

text \<open>The two statements of the \<^verbatim>\<open>try\<close> block of \<^verbatim>\<open>loadFromDisk\<close>; \<open>Inl\<close> is a throw.\<close>

definition load_queue :: "world \<Rightarrow> error + world" where
  "load_queue w =
     (if existsSync (fs w) queueFile then
        (case readJson (fs w) queueFile of
           Inl e \<Rightarrow> Inl e
         | Inr q \<Rightarrow> Inr (console_log ''laoded form disk'' (w\<lparr>queue := q\<rparr>)))
      else Inr w)"

definition load_progress :: "world \<Rightarrow> error + world" where
  "load_progress w =
     (if existsSync (fs w) progressFile then
        (case readJson (fs w) progressFile of
           Inl e \<Rightarrow> Inl e
         | Inr p \<Rightarrow> Inr (console_log ''Load from disk'' (w\<lparr>progress := p\<rparr>)))
      else Inr w)"

text \<open>The \<^verbatim>\<open>catch\<close> block of \<^verbatim>\<open>loadFromDisk\<close>, entered in the world the throw left.\<close>

definition load_failed :: "world \<Rightarrow> world" where
  "load_failed w = (console_log ''Error loading from disk'' w)\<lparr>queue := [], progress := []\<rparr>"

definition loadFromDisk :: "world \<Rightarrow> world" where
  "loadFromDisk w =
     (case load_queue w of
        Inl e \<Rightarrow> load_failed w
      | Inr w1 \<Rightarrow>
          (case load_progress w1 of
             Inl e \<Rightarrow> load_failed w1
           | Inr w2 \<Rightarrow> w2))"

text \<open>
  \<^verbatim>\<open>new StorageService()\<close> on a file system \<open>f\<close>: the field initialisers give two empty
  maps, then the constructor body runs. \<^verbatim>\<open>ensureDataDirectory\<close> is outside every \<^verbatim>\<open>try\<close>.
\<close>

definition new_StorageService :: "filesystem \<Rightarrow> error + world" where
  "new_StorageService f =
     (case ensureDataDirectory \<lparr>queue = [], progress = [], fs = f, console = []\<rparr> of
        Inl e \<Rightarrow> Inl e
      | Inr w \<Rightarrow> Inr (loadFromDisk w))"

subsection \<open>Persistence\<close>

text \<open>
  \<^verbatim>\<open>saveToDisk\<close>: two writes in a \<^verbatim>\<open>try\<close> block whose \<^verbatim>\<open>catch\<close> logs and returns. A failure
  of the second write leaves the first file written.
\<close>

definition saveToDisk :: "world \<Rightarrow> world" where
  "saveToDisk w =
     (case writeQueueFile (queue w) (fs w) of
        Inl e \<Rightarrow> console_log ''Error saving'' w
      | Inr f1 \<Rightarrow>
          (case writeProgressFile (progress w) f1 of
             Inl e \<Rightarrow> console_log ''Error saving'' (w\<lparr>fs := f1\<rparr>)
           | Inr f2 \<Rightarrow> console_log ''Data saved'' (w\<lparr>fs := f2\<rparr>)))"

subsection \<open>The queue\<close>

text \<open>The template literal \<^verbatim>\<open>`${userId}-${videoId}`\<close> of every method that builds a key.\<close>

definition key_of :: "string \<Rightarrow> string \<Rightarrow> string" where
  "key_of uid vid = uid @ ''-'' @ vid"

text \<open>
  \<^verbatim>\<open>addToQueue\<close>. The generated id (\<^verbatim>\<open>Date.now()\<close> and \<^verbatim>\<open>Math.random()\<close>) and the
  timestamp (\<^verbatim>\<open>new Date().toISOString()\<close>) are inputs. \<^verbatim>\<open>this.queue.get(key) || []\<close>: an
  array is truthy, also an empty one.
\<close>

definition addToQueue :: "Body \<Rightarrow> string \<Rightarrow> string \<Rightarrow> world \<Rightarrow> QueueItem \<times> world" where
  "addToQueue item new_id now w =
     (let queueItem =
            \<lparr>videoId = Body.videoId item, userId = Body.userId item,
             progressSeconds = progressSeconds item, item_id = new_id, createdAt = now\<rparr>;
          key = key_of (Body.userId item) (Body.videoId item);
          existing = (case map_of (queue w) key of None \<Rightarrow> [] | Some items \<Rightarrow> items)
      in (queueItem, saveToDisk (w\<lparr>queue := AList.update key (existing @ [queueItem]) (queue w)\<rparr>)))"

definition getQueueItems :: "world \<Rightarrow> string \<Rightarrow> string \<Rightarrow> QueueItem list" where
  "getQueueItems w uid vid =
     (case map_of (queue w) (key_of uid vid) of None \<Rightarrow> [] | Some items \<Rightarrow> items)"

definition getAllQueueItem :: "world \<Rightarrow> queue_map" where
  "getAllQueueItem w = queue w"

definition clearQueue :: "world \<Rightarrow> world" where
  "clearQueue w = saveToDisk (w\<lparr>queue := []\<rparr>)"

definition clearQueueForKey :: "string \<Rightarrow> string \<Rightarrow> world \<Rightarrow> world" where
  "clearQueueForKey uid vid w =
     saveToDisk (w\<lparr>queue := AList.delete (key_of uid vid) (queue w)\<rparr>)"

subsection \<open>The progress table\<close>

definition getProgress :: "world \<Rightarrow> string \<Rightarrow> string \<Rightarrow> ProgressRecord option" where
  "getProgress w uid vid = map_of (progress w) (key_of uid vid)"

text \<open>A template literal prints \<^verbatim>\<open>undefined\<close> as the word.\<close>

fun interpolate :: "string option \<Rightarrow> string" where
  "interpolate None = ''undefined''"
| "interpolate (Some s) = s"

text \<open>
  \<^verbatim>\<open>setProgress\<close> and \<^verbatim>\<open>updateProgressIfHigher\<close>, with the \<^verbatim>\<open>videoId\<close> that
  \<^verbatim>\<open>processCronJob\<close> can pass. \<open>now\<close> is \<^verbatim>\<open>new Date().toISOString()\<close>.
\<close>

definition setProgress ::
  "string \<Rightarrow> string \<Rightarrow> string option \<Rightarrow> number \<Rightarrow> world \<Rightarrow> ProgressRecord \<times> world" where
  "setProgress now uid vid seconds w =
     (let key = key_of uid (interpolate vid);
          progressRecord =
            \<lparr>ProgressRecord.videoId = vid, ProgressRecord.userId = uid,
             furthestSeconds = seconds, updatedAt = now\<rparr>
      in (progressRecord,
          saveToDisk (w\<lparr>progress := AList.update key progressRecord (progress w)\<rparr>)))"

definition updateProgressIfHigher ::
  "string \<Rightarrow> string \<Rightarrow> string option \<Rightarrow> number \<Rightarrow> world \<Rightarrow> bool \<times> world" where
  "updateProgressIfHigher now uid vid seconds w =
     (let key = key_of uid (interpolate vid);
          current = map_of (progress w) key
      in if (case current of None \<Rightarrow> True | Some c \<Rightarrow> seconds > furthestSeconds c)
         then (True, snd (setProgress now uid vid seconds w))
         else (False, w))"

definition getAlssProgress :: "world \<Rightarrow> progress_map" where
  "getAlssProgress w = progress w"

subsection \<open>The merge\<close>

text \<open>
  \<^verbatim>\<open>key.split('-')\<close>, an array that is never empty, as its first element and the list of
  the others: \<^verbatim>\<open>''.split('-')\<close> is \<^verbatim>\<open>['']\<close>, and every hyphen starts a new element.
\<close>

fun split :: "char \<Rightarrow> string \<Rightarrow> string \<times> string list" where
  "split sep [] = ([], [])"
| "split sep (c # cs) =
     (case split sep cs of
        (seg, segs) \<Rightarrow> if c = sep then ([], seg # segs) else (c # seg, segs))"

text \<open>
  \<^verbatim>\<open>const [userId, videoId] = key.split('-')\<close>: the first two elements; \<^verbatim>\<open>videoId\<close> is
  \<^verbatim>\<open>undefined\<close> when there is one element only.
\<close>

definition cron_pair :: "string \<Rightarrow> string \<times> string option" where
  "cron_pair key =
     (case split CHR ''-'' key of
        (uid, segs) \<Rightarrow> (uid, case segs of [] \<Rightarrow> None | vid # _ \<Rightarrow> Some vid))"

text \<open>
  The body of the \<^verbatim>\<open>for\<close> loop of \<^verbatim>\<open>processCronJob\<close>, on the counter \<^verbatim>\<open>updated\<close> and the
  world. An empty bucket is skipped (\<^verbatim>\<open>continue\<close>). Every call of \<^verbatim>\<open>setProgress\<close> reads
  the clock: \<open>now key\<close> is its reading in the iteration of \<open>key\<close>.
\<close>

definition cron_step ::
  "(string \<Rightarrow> string) \<Rightarrow> string \<times> QueueItem list \<Rightarrow> nat \<times> world \<Rightarrow> nat \<times> world" where
  "cron_step now entry st =
     (case entry of (key, items) \<Rightarrow>
      case st of (updated, w) \<Rightarrow>
      if length items = 0 then (updated, w)
      else
        (let maxProgress = Math_max (map progressSeconds items);
             (uid, vid) = cron_pair key;
             (wasUpdated, w') = updateProgressIfHigher (now key) uid vid maxProgress w
         in (if wasUpdated then updated + 1 else updated, w')))"

record CronResult =
  updated :: nat
  processed :: nat

text \<open>
  \<^verbatim>\<open>processCronJob\<close>. The loop runs over the entries of \<^verbatim>\<open>this.queue\<close>, which its body does
  not change. The variable \<^verbatim>\<open>processed\<close> is initialised to 0 and no statement assigns it.
\<close>

definition processCronJob :: "(string \<Rightarrow> string) \<Rightarrow> world \<Rightarrow> CronResult \<times> world" where
  "processCronJob now w =
     (case fold (cron_step now) (queue w) (0, w) of
        (n, w1) \<Rightarrow>
          (\<lparr>updated = n, processed = 0\<rparr>,
           console_log ''Cron job processed'' (saveToDisk (w1\<lparr>queue := []\<rparr>))))"

subsection \<open>Statistics and reset\<close>

text \<open>\<^verbatim>\<open>getStats\<close>, without the constant \<^verbatim>\<open>dataPath\<close>.\<close>

record Stats =
  queueSize :: nat
  queueItems :: nat
  progressRecords :: nat

definition getStats :: "world \<Rightarrow> Stats" where
  "getStats w =
     \<lparr>queueSize = length (queue w),
      queueItems = length (concat (map snd (queue w))),
      progressRecords = length (progress w)\<rparr>"

definition reset :: "world \<Rightarrow> world" where
  "reset w = console_log ''Storage reset'' (saveToDisk (w\<lparr>queue := [], progress := []\<rparr>))"

section \<open>The routes of the server\<close>

text \<open>
  \<^verbatim>\<open>POST /api/progress/queue\<close>: the body schema
  \<^verbatim>\<open>t.Object({videoId: t.String(), userId: t.String(), progressSeconds: t.Number({minimum: 0})})\<close>
  is checked before the handler runs. On a typed body what is left of it is the check of
  the number: \<^verbatim>\<open>t.Number\<close> accepts a finite number only (an infinity, which the JSON text
  \<^verbatim>\<open>2e308\<close> parses to, and \<^verbatim>\<open>NaN\<close> are refused), and \<^verbatim>\<open>minimum: 0\<close> refuses a negative one.
  The handler answers \<^verbatim>\<open>{ok: true, item}\<close>.
\<close>

definition body_schema :: "Body \<Rightarrow> bool" where
  "body_schema body =
     (case progressSeconds body of
        Finite x \<Rightarrow> 0 \<le> x
      | PosInf \<Rightarrow> False
      | NegInf \<Rightarrow> False
      | NaN \<Rightarrow> False)"

definition post_progress_queue ::
  "Body \<Rightarrow> string \<Rightarrow> string \<Rightarrow> world \<Rightarrow> (error + QueueItem) \<times> world" where
  "post_progress_queue body new_id now w =
     (if body_schema body then
        (case addToQueue body new_id now w of (queueItem, w') \<Rightarrow> (Inr queueItem, w'))
      else (Inl ValidationError, w))"

text \<open>
  \<^verbatim>\<open>GET /api/progress/furthest\<close>: \<^verbatim>\<open>progress?.furthestSeconds || 0\<close> and
  \<^verbatim>\<open>progress?.updatedAt || null\<close>; the numbers 0 and \<^verbatim>\<open>NaN\<close> and the empty string are
  falsy.
\<close>

record Furthest =
  furthest_videoId :: string
  furthest_userId :: string
  furthest_furthestSeconds :: number
  furthest_lastUpdated :: "string option"

definition get_progress_furthest :: "world \<Rightarrow> string \<Rightarrow> string \<Rightarrow> Furthest" where
  "get_progress_furthest w uid vid =
     (let progress = getProgress w uid vid
      in \<lparr>furthest_videoId = vid,
          furthest_userId = uid,
          furthest_furthestSeconds =
            (case progress of
               None \<Rightarrow> Finite 0
             | Some r \<Rightarrow>
                 if furthestSeconds r = Finite 0 \<or> furthestSeconds r = NaN then Finite 0
                 else furthestSeconds r),
          furthest_lastUpdated =
            (case progress of
               None \<Rightarrow> None
             | Some r \<Rightarrow> if updatedAt r = [] then None else Some (updatedAt r))\<rparr>)"

definition post_progress_run_cron :: "(string \<Rightarrow> string) \<Rightarrow> world \<Rightarrow> CronResult \<times> world" where
  "post_progress_run_cron now w = processCronJob now w"

definition get_stats :: "world \<Rightarrow> Stats" where
  "get_stats w = getStats w"

text \<open>\<^verbatim>\<open>POST /api/reset\<close> answers \<^verbatim>\<open>{ok: true}\<close>.\<close>

definition post_reset :: "world \<Rightarrow> bool \<times> world" where
  "post_reset w = (True, reset w)"

section \<open>Notions used to state the properties\<close>

text \<open>The key under which \<^const>\<open>cron_step\<close> commits the bucket stored under \<open>key\<close>.\<close>

definition commit_key :: "string \<Rightarrow> string" where
  "commit_key key = (case cron_pair key of (uid, vid) \<Rightarrow> key_of uid (interpolate vid))"

text \<open>
  The elements of a key split at its hyphens, said without \<^const>\<open>split\<close>: the first one is
  the text before the first hyphen, the second one is the first element of the text after
  the first hyphen.
\<close>

definition first_segment :: "string \<Rightarrow> string" where
  "first_segment s = takeWhile (\<lambda>c. c \<noteq> CHR ''-'') s"

definition after_hyphen :: "string \<Rightarrow> string" where
  "after_hyphen s = drop 1 (dropWhile (\<lambda>c. c \<noteq> CHR ''-'') s)"

text \<open>
  What one iteration of the loop does to the entry \<open>t\<close> of the progress table, as a
  function of that entry alone.
\<close>

definition slot_step ::
  "(string \<Rightarrow> string) \<Rightarrow> string \<Rightarrow> string \<times> QueueItem list \<Rightarrow>
   ProgressRecord option \<Rightarrow> ProgressRecord option" where
  "slot_step now t entry cur =
     (case entry of (key, items) \<Rightarrow>
      if length items = 0 then cur
      else if commit_key key = t then
        (let m = Math_max (map progressSeconds items)
         in if (case cur of None \<Rightarrow> True | Some c \<Rightarrow> m > furthestSeconds c)
            then Some \<lparr>ProgressRecord.videoId = snd (cron_pair key),
                       ProgressRecord.userId = fst (cron_pair key),
                       furthestSeconds = m, updatedAt = now key\<rparr>
            else cur)
      else cur)"

text \<open>
  The public methods of \<^verbatim>\<open>StorageService\<close> that change its state, as operations, and a
  run of a sequence of them. A caller of the class passes strings.
\<close>

datatype op =
    AddToQueue Body string string
  | ClearQueue
  | ClearQueueForKey string string
  | SetProgress string string string number
  | UpdateProgressIfHigher string string string number
  | ProcessCronJob "string \<Rightarrow> string"
  | Reset

fun apply_op :: "op \<Rightarrow> world \<Rightarrow> world" where
  "apply_op (AddToQueue item new_id now) w = snd (addToQueue item new_id now w)"
| "apply_op ClearQueue w = clearQueue w"
| "apply_op (ClearQueueForKey uid vid) w = clearQueueForKey uid vid w"
| "apply_op (SetProgress now uid vid seconds) w = snd (setProgress now uid (Some vid) seconds w)"
| "apply_op (UpdateProgressIfHigher now uid vid seconds) w =
     snd (updateProgressIfHigher now uid (Some vid) seconds w)"
| "apply_op (ProcessCronJob now) w = snd (processCronJob now w)"
| "apply_op Reset w = reset w"

definition run :: "op list \<Rightarrow> world \<Rightarrow> world" where
  "run ops w = fold apply_op ops w"

text \<open>The two operations that write the progress table without comparing.\<close>

fun overwrites :: "op \<Rightarrow> bool" where
  "overwrites (SetProgress now uid vid seconds) = True"
| "overwrites Reset = True"
| "overwrites other = False"

text \<open>A file system on which \<^const>\<open>saveToDisk\<close> cannot complete its two writes.\<close>

definition write_fails :: "filesystem \<Rightarrow> bool" where
  "write_fails f = (dataDir f = None \<or> queueWriteFails f \<or> progressWriteFails f)"

text \<open>An empty store on an empty, working data directory.\<close>

definition empty_dir :: filesystem where
  "empty_dir =
     \<lparr>dataDir = Some \<lparr>queueFile = Missing, progressFile = Missing\<rparr>,
      mkdirFails = False, queueWriteFails = False, progressWriteFails = False\<rparr>"

definition empty_world :: world where
  "empty_world = \<lparr>queue = [], progress = [], fs = empty_dir, console = []\<rparr>"

text \<open>The empty store on a data directory whose queue file cannot be written.\<close>

definition failing_disk_world :: world where
  "failing_disk_world = empty_world\<lparr>fs := empty_dir\<lparr>queueWriteFails := True\<rparr>\<rparr>"

definition sample_body :: Body where
  "sample_body = \<lparr>videoId = ''v'', userId = ''u'', progressSeconds = Finite 42\<rparr>"

text \<open>A store in which no pending sample and no committed value is \<^verbatim>\<open>NaN\<close>.\<close>

definition nan_free :: "world \<Rightarrow> bool" where
  "nan_free w =
     (list_all (\<lambda>entry. list_all (\<lambda>it. progressSeconds it \<noteq> NaN) (snd entry)) (queue w)
      \<and> list_all (\<lambda>entry. furthestSeconds (snd entry) \<noteq> NaN) (progress w))"

text \<open>A merge that follows the enqueue of one sample.\<close>

definition enqueue_then_merge ::
  "Body \<Rightarrow> string \<Rightarrow> string \<Rightarrow> (string \<Rightarrow> string) \<Rightarrow> world \<Rightarrow> world" where
  "enqueue_then_merge body new_id t now w =
     snd (processCronJob now (snd (addToQueue body new_id t w)))"

text \<open>The sample the page sends: its user id and the video id the server hands out.\<close>

definition demo_body :: Body where
  "demo_body = \<lparr>videoId = ''yt-abc123'', userId = ''test-user-1'', progressSeconds = Finite 42\<rparr>"

section \<open>Basic facts about numbers\<close>

lemma number_less [simp]:
  "Finite x < Finite y \<longleftrightarrow> x < y"
  "Finite x < PosInf"
  "\<not> Finite x < NegInf"
  "NegInf < Finite y"
  "NegInf < PosInf"
  "\<not> PosInf < b"
  "\<not> a < NegInf"
  "\<not> NaN < b"
  "\<not> a < NaN"
  by (simp_all add: less_number_def split: number.splits)

lemma number_less_eq [simp]:
  "Finite x \<le> Finite y \<longleftrightarrow> x \<le> y"
  "Finite x \<le> PosInf"
  "\<not> Finite x \<le> NegInf"
  "NegInf \<le> Finite y"
  "\<not> PosInf \<le> Finite y"
  "\<not> Finite x \<le> NaN"
  "\<not> NaN \<le> Finite y"
  by (auto simp: less_eq_number_def)

lemma number_linear: "a \<noteq> NaN \<Longrightarrow> b \<noteq> NaN \<Longrightarrow> a \<le> b \<or> b < a"
  by (cases a; cases b) (auto simp: less_eq_number_def)

section \<open>Basic facts about the methods\<close>

lemma console_log_fields [simp]:
  "queue (console_log m w) = queue w"
  "progress (console_log m w) = progress w"
  "fs (console_log m w) = fs w"
  "console (console_log m w) = console w @ [m]"
  by (simp_all add: console_log_def)

lemma saveToDisk_memory [simp]:
  "queue (saveToDisk w) = queue w"
  "progress (saveToDisk w) = progress w"
  by (simp_all add: saveToDisk_def split: sum.splits)

lemma addToQueue_fields [simp]:
  "fst (addToQueue item i t w) =
     \<lparr>videoId = Body.videoId item, userId = Body.userId item,
      progressSeconds = progressSeconds item, item_id = i, createdAt = t\<rparr>"
  "progress (snd (addToQueue item i t w)) = progress w"
  "queue (snd (addToQueue item i t w)) =
     AList.update (key_of (Body.userId item) (Body.videoId item))
       ((case map_of (queue w) (key_of (Body.userId item) (Body.videoId item)) of
           None \<Rightarrow> [] | Some items \<Rightarrow> items) @ [fst (addToQueue item i t w)]) (queue w)"
  by (simp_all add: addToQueue_def Let_def)

lemma setProgress_fields [simp]:
  "queue (snd (setProgress now uid vid s w)) = queue w"
  "progress (snd (setProgress now uid vid s w)) =
     AList.update (key_of uid (interpolate vid))
       \<lparr>ProgressRecord.videoId = vid, ProgressRecord.userId = uid,
        furthestSeconds = s, updatedAt = now\<rparr> (progress w)"
  by (simp_all add: setProgress_def Let_def)

lemma updateProgressIfHigher_queue [simp]:
  "queue (snd (updateProgressIfHigher now uid vid s w)) = queue w"
  by (simp add: updateProgressIfHigher_def Let_def)

lemma cron_step_Nil [simp]: "cron_step now (key, []) st = st"
  by (simp add: cron_step_def split: prod.splits)

lemma cron_step_Cons:
  "items \<noteq> [] \<Longrightarrow>
   cron_step now (key, items) (n, w) =
     (if fst (updateProgressIfHigher (now key) (fst (cron_pair key)) (snd (cron_pair key))
                (Math_max (map progressSeconds items)) w)
      then n + 1 else n,
      snd (updateProgressIfHigher (now key) (fst (cron_pair key)) (snd (cron_pair key))
             (Math_max (map progressSeconds items)) w))"
  by (simp add: cron_step_def Let_def split: prod.splits)

lemma cron_step_queue [simp]: "queue (snd (cron_step now e st)) = queue (snd st)"
proof (cases e)
  case (Pair key items)
  then show ?thesis
    by (cases st; cases items) (simp_all add: cron_step_Cons)
qed

lemma fold_cron_step_queue [simp]:
  "queue (snd (fold (cron_step now) es st)) = queue (snd st)"
  by (induction es arbitrary: st) simp_all

lemma lookup_cron_step:
  "map_of (progress (snd (cron_step now e (n, w)))) t = slot_step now t e (map_of (progress w) t)"
proof (cases e)
  case (Pair key items)
  then show ?thesis
    by (cases items)
      (auto simp: cron_step_Cons slot_step_def commit_key_def updateProgressIfHigher_def Let_def
        update_conv' split: prod.splits option.splits)
qed

lemma lookup_fold_cron_step:
  "map_of (progress (snd (fold (cron_step now) es st))) t =
     fold (slot_step now t) es (map_of (progress (snd st)) t)"
proof (induction es arbitrary: st)
  case Nil
  show ?case by simp
next
  case (Cons e es)
  obtain n w where st: "st = (n, w)" by (cases st)
  show ?case
    by (simp add: Cons.IH st lookup_cron_step)
qed

lemma processCronJob_fields [simp]:
  "queue (snd (processCronJob now w)) = []"
  "progress (snd (processCronJob now w)) = progress (snd (fold (cron_step now) (queue w) (0, w)))"
  "updated (fst (processCronJob now w)) = fst (fold (cron_step now) (queue w) (0, w))"
  "processed (fst (processCronJob now w)) = 0"
  by (simp_all add: processCronJob_def split: prod.splits)

lemmas method_defs =
  addToQueue_def getQueueItems_def getProgress_def setProgress_def updateProgressIfHigher_def
  processCronJob_def cron_step_def cron_pair_def key_of_def saveToDisk_def writeQueueFile_def
  writeProgressFile_def console_log_def getStats_def reset_def clearQueue_def
  clearQueueForKey_def Math_max_def Let_def

lemmas route_defs =
  post_progress_queue_def body_schema_def get_progress_furthest_def post_progress_run_cron_def
  get_stats_def post_reset_def

section \<open>The merge empties the queue and is idempotent\<close>

text \<open>
  C8. After a merge pass the queue is empty, whatever was raised: the number of keys and the
  number of pending samples that \<^const>\<open>getStats\<close> reports are 0, and no pair has a pending
  sample left.
\<close>

theorem merge_drains_queue:
  "queue (snd (processCronJob now w)) = []
   \<and> queueItems (getStats (snd (processCronJob now w))) = 0
   \<and> queueSize (getStats (snd (processCronJob now w))) = 0
   \<and> getQueueItems (snd (processCronJob now w)) uid vid = []"
  by (simp add: getStats_def getQueueItems_def)

text \<open>
  C6. A second merge that follows a merge with no operation in between raises nothing and
  leaves the progress table as the first merge left it.
\<close>

theorem merge_idempotent:
  "updated (fst (processCronJob now2 (snd (processCronJob now1 w)))) = 0
   \<and> progress (snd (processCronJob now2 (snd (processCronJob now1 w))))
       = progress (snd (processCronJob now1 w))"
  by simp

section \<open>The counters returned by the merge\<close>

text \<open>
  C2. The merge is meant to return the number of keys scanned next to the number of keys
  raised. On the empty store with one sample enqueued for the pair \<open>(u, v)\<close>, one key has a
  pending sample and is raised, and the merge returns \<open>updated = 1\<close> and \<open>processed = 0\<close>.
\<close>

theorem merge_reports_no_scanned_key:
  "fst (processCronJob (\<lambda>key. ''t2'')
         (snd (addToQueue \<lparr>videoId = ''v'', userId = ''u'', progressSeconds = Finite 42\<rparr>
                 ''id1'' ''t1'' empty_world)))
     = \<lparr>updated = 1, processed = 0\<rparr>
   \<and> length (filter (\<lambda>entry. snd entry \<noteq> [])
         (queue (snd (addToQueue \<lparr>videoId = ''v'', userId = ''u'', progressSeconds = Finite 42\<rparr>
                        ''id1'' ''t1'' empty_world)))) = 1"
  by (simp add: method_defs empty_world_def empty_dir_def)

section \<open>Start-up on a corrupt data directory\<close>

lemma loadFromDisk_corrupt:
  assumes "dataDir (fs w) = Some d"
    and "queueFile d = Unreadable \<or> queueFile d = Malformed
         \<or> progressFile d = Unreadable \<or> progressFile d = Malformed"
  shows "queue (loadFromDisk w) = [] \<and> progress (loadFromDisk w) = []
         \<and> last (console (loadFromDisk w)) = ''Error loading from disk''"
  using assms
  by (cases "queueFile d"; cases "progressFile d")
    (simp_all add: loadFromDisk_def load_queue_def load_progress_def load_failed_def
      existsSync_def readJson_def)

text \<open>
  C9. When a file of the data directory cannot be read or parsed at start-up, the
  construction of the store succeeds, both collections are empty, the condition is logged,
  and the reads answer as on an empty store.
\<close>

theorem corrupt_state_gives_empty_store:
  assumes "dataDir f = Some d"
    and "queueFile d = Unreadable \<or> queueFile d = Malformed
         \<or> progressFile d = Unreadable \<or> progressFile d = Malformed"
  shows "\<exists>w. new_StorageService f = Inr w \<and> queue w = [] \<and> progress w = []
           \<and> getProgress w uid vid = None \<and> getQueueItems w uid vid = []
           \<and> getStats w = \<lparr>queueSize = 0, queueItems = 0, progressRecords = 0\<rparr>
           \<and> last (console w) = ''Error loading from disk''"
proof -
  let ?w0 = "\<lparr>queue = [], progress = [], fs = f, console = []\<rparr>"
  have dir: "dataDir (fs ?w0) = Some d"
    using assms(1) by simp
  have "new_StorageService f = Inr (loadFromDisk ?w0)"
    using assms(1) by (simp add: new_StorageService_def ensureDataDirectory_def)
  moreover note loadFromDisk_corrupt [OF dir assms(2)]
  ultimately show ?thesis
    by (simp add: getProgress_def getQueueItems_def getStats_def)
qed

theorem corrupt_state_gives_empty_store_witness:
  "dataDir (empty_dir\<lparr>dataDir := Some \<lparr>queueFile = Stored [(''u-v'', [])], progressFile = Malformed\<rparr>\<rparr>)
     = Some \<lparr>queueFile = Stored [(''u-v'', [])], progressFile = Malformed\<rparr>
   \<and> (\<exists>w. new_StorageService
             (empty_dir\<lparr>dataDir := Some \<lparr>queueFile = Stored [(''u-v'', [])], progressFile = Malformed\<rparr>\<rparr>)
             = Inr w
          \<and> queue w = [] \<and> progress w = []
          \<and> getProgress w ''u'' ''v'' = None \<and> getQueueItems w ''u'' ''v'' = []
          \<and> getStats w = \<lparr>queueSize = 0, queueItems = 0, progressRecords = 0\<rparr>
          \<and> last (console w) = ''Error loading from disk'')"
proof -
  let ?d = "\<lparr>queueFile = Stored [(''u-v'', [])], progressFile = Malformed\<rparr>"
  let ?f = "empty_dir\<lparr>dataDir := Some ?d\<rparr>"
  have h1: "dataDir ?f = Some ?d" by simp
  have h2: "queueFile ?d = Unreadable \<or> queueFile ?d = Malformed
            \<or> progressFile ?d = Unreadable \<or> progressFile ?d = Malformed" by simp
  show ?thesis
    using corrupt_state_gives_empty_store [OF h1 h2, of "''u''" "''v''"] h1 by blast
qed

section \<open>Validation of a sample\<close>

lemma getQueueItems_addToQueue:
  "getQueueItems (snd (addToQueue body i t w)) uid vid =
     (if key_of uid vid = key_of (Body.userId body) (Body.videoId body)
      then getQueueItems w uid vid @ [fst (addToQueue body i t w)]
      else getQueueItems w uid vid)"
  by (simp add: getQueueItems_def update_conv')

text \<open>
  C5, as the claim states it, fails: \<^const>\<open>addToQueue\<close> has no check. Called on the empty
  store with the progress value \<open>-1\<close> it returns the item, and the item is in the queue
  and in the queue file; called with \<^verbatim>\<open>Infinity\<close> or with \<^verbatim>\<open>NaN\<close> it returns the item,
  and the item is in the queue.
\<close>

theorem store_accepts_invalid_samples:
  "addToQueue \<lparr>videoId = ''v'', userId = ''u'', progressSeconds = Finite (- 1)\<rparr> ''id1'' ''t1'' empty_world
     = (\<lparr>videoId = ''v'', userId = ''u'', progressSeconds = Finite (- 1), item_id = ''id1'', createdAt = ''t1''\<rparr>,
        \<lparr>queue = [(''u-v'', [\<lparr>videoId = ''v'', userId = ''u'', progressSeconds = Finite (- 1), item_id = ''id1'', createdAt = ''t1''\<rparr>])],
         progress = [],
         fs = \<lparr>dataDir = Some \<lparr>queueFile = Stored [(''u-v'', [\<lparr>videoId = ''v'', userId = ''u'', progressSeconds = Finite (- 1), item_id = ''id1'', createdAt = ''t1''\<rparr>])],
                                progressFile = Stored []\<rparr>,
               mkdirFails = False, queueWriteFails = False, progressWriteFails = False\<rparr>,
         console = [''Data saved'']\<rparr>)
   \<and> getQueueItems
         (snd (addToQueue \<lparr>videoId = ''v'', userId = ''u'', progressSeconds = PosInf\<rparr>
                 ''id1'' ''t1'' empty_world)) ''u'' ''v''
       = [\<lparr>videoId = ''v'', userId = ''u'', progressSeconds = PosInf, item_id = ''id1'',
           createdAt = ''t1''\<rparr>]
   \<and> getQueueItems
         (snd (addToQueue \<lparr>videoId = ''v'', userId = ''u'', progressSeconds = NaN\<rparr>
                 ''id1'' ''t1'' empty_world)) ''u'' ''v''
       = [\<lparr>videoId = ''v'', userId = ''u'', progressSeconds = NaN, item_id = ''id1'',
           createdAt = ''t1''\<rparr>]"
  by (simp add: method_defs empty_world_def empty_dir_def)

lemma saveToDisk_succeeds:
  assumes "\<not> write_fails (fs w)"
  shows "dataDir (fs (saveToDisk w))
           = Some \<lparr>queueFile = Stored (queue w), progressFile = Stored (progress w)\<rparr>"
proof -
  from assms obtain d where d: "dataDir (fs w) = Some d"
    by (auto simp: write_fails_def)
  with assms show ?thesis
    by (cases d)
      (simp add: write_fails_def saveToDisk_def writeQueueFile_def writeProgressFile_def)
qed

lemma saveToDisk_fails_console:
  "write_fails (fs w) \<Longrightarrow> console (saveToDisk w) = console w @ [''Error saving'']"
  by (auto simp: write_fails_def saveToDisk_def writeQueueFile_def writeProgressFile_def
      split: sum.splits option.splits if_splits)

text \<open>
  C5, amended. The check is the body schema of the route \<^verbatim>\<open>POST /api/progress/queue\<close>: a
  progress value that is negative or not finite is answered with a validation error and
  the world (queue, progress table, files) is left as it was; every finite value that is
  not negative reaches \<^const>\<open>addToQueue\<close>, with no upper bound. \<^const>\<open>addToQueue\<close> itself
  accepts every value: it returns the item with the value it was given, appends it to the
  bucket of its pair, leaves the progress table alone and writes both collections to the
  data directory, unless a write fails, which is logged.
\<close>

theorem enqueue_validation:
  "post_progress_queue body i t w =
     (case progressSeconds body of
        Finite x \<Rightarrow>
          if x < 0 then (Inl ValidationError, w)
          else (Inr (fst (addToQueue body i t w)), snd (addToQueue body i t w))
      | PosInf \<Rightarrow> (Inl ValidationError, w)
      | NegInf \<Rightarrow> (Inl ValidationError, w)
      | NaN \<Rightarrow> (Inl ValidationError, w))
   \<and> progressSeconds (fst (addToQueue body i t w)) = progressSeconds body
   \<and> getQueueItems (snd (addToQueue body i t w)) (Body.userId body) (Body.videoId body)
       = getQueueItems w (Body.userId body) (Body.videoId body) @ [fst (addToQueue body i t w)]
   \<and> progress (snd (addToQueue body i t w)) = progress w
   \<and> (if write_fails (fs w)
       then console (snd (addToQueue body i t w)) = console w @ [''Error saving'']
       else dataDir (fs (snd (addToQueue body i t w)))
              = Some \<lparr>queueFile = Stored (queue (snd (addToQueue body i t w))),
                      progressFile = Stored (progress w)\<rparr>)"
proof -
  let ?key = "key_of (Body.userId body) (Body.videoId body)"
  let ?item = "\<lparr>videoId = Body.videoId body, userId = Body.userId body,
                progressSeconds = progressSeconds body, item_id = i, createdAt = t\<rparr>"
  let ?w1 = "w\<lparr>queue := AList.update ?key
                 ((case map_of (queue w) ?key of None \<Rightarrow> [] | Some items \<Rightarrow> items) @ [?item])
                 (queue w)\<rparr>"
  have snd_eq: "snd (addToQueue body i t w) = saveToDisk ?w1"
    by (simp add: addToQueue_def Let_def)
  have route: "post_progress_queue body i t w =
     (case progressSeconds body of
        Finite x \<Rightarrow>
          if x < 0 then (Inl ValidationError, w)
          else (Inr (fst (addToQueue body i t w)), snd (addToQueue body i t w))
      | PosInf \<Rightarrow> (Inl ValidationError, w)
      | NegInf \<Rightarrow> (Inl ValidationError, w)
      | NaN \<Rightarrow> (Inl ValidationError, w))"
    by (cases "progressSeconds body")
      (simp_all add: post_progress_queue_def body_schema_def case_prod_beta not_less [symmetric])
  have disk: "if write_fails (fs w)
       then console (snd (addToQueue body i t w)) = console w @ [''Error saving'']
       else dataDir (fs (snd (addToQueue body i t w)))
              = Some \<lparr>queueFile = Stored (queue (snd (addToQueue body i t w))),
                      progressFile = Stored (progress w)\<rparr>"
  proof (cases "write_fails (fs w)")
    case True
    then have "write_fails (fs ?w1)" by simp
    from saveToDisk_fails_console [OF this] True show ?thesis
      by (simp add: snd_eq)
  next
    case False
    then have "\<not> write_fails (fs ?w1)" by simp
    from saveToDisk_succeeds [OF this] False show ?thesis
      by (simp add: snd_eq)
  qed
  from route disk show ?thesis
    by (simp add: getQueueItems_addToQueue)
qed

section \<open>A failed write\<close>



lemma write_fails_saveToDisk [simp]: "write_fails (fs (saveToDisk w)) = write_fails (fs w)"
  by (auto simp: write_fails_def saveToDisk_def writeQueueFile_def writeProgressFile_def
      split: sum.splits option.splits if_splits)

lemma updateProgressIfHigher_write_fails [simp]:
  "write_fails (fs (snd (updateProgressIfHigher now uid vid s w))) = write_fails (fs w)"
  by (simp add: updateProgressIfHigher_def setProgress_def Let_def)

lemma cron_step_write_fails [simp]:
  "write_fails (fs (snd (cron_step now e st))) = write_fails (fs (snd st))"
proof (cases e)
  case (Pair key items)
  then show ?thesis
    by (cases st; cases items) (simp_all add: cron_step_Cons)
qed

lemma fold_cron_step_write_fails [simp]:
  "write_fails (fs (snd (fold (cron_step now) es st))) = write_fails (fs (snd st))"
  by (induction es arbitrary: st) simp_all

lemma updateProgressIfHigher_memory:
  assumes "progress w = progress w'"
  shows "fst (updateProgressIfHigher now uid vid s w) = fst (updateProgressIfHigher now uid vid s w')
         \<and> progress (snd (updateProgressIfHigher now uid vid s w))
             = progress (snd (updateProgressIfHigher now uid vid s w'))"
  using assms by (simp add: updateProgressIfHigher_def Let_def)

lemma cron_step_memory:
  assumes "progress w = progress w'"
  shows "fst (cron_step now e (n, w)) = fst (cron_step now e (n, w'))
         \<and> progress (snd (cron_step now e (n, w))) = progress (snd (cron_step now e (n, w')))"
proof (cases e)
  case (Pair key items)
  show ?thesis
  proof (cases items)
    case Nil
    with Pair assms show ?thesis by simp
  next
    case (Cons item others)
    with Pair updateProgressIfHigher_memory [OF assms] show ?thesis
      by (simp add: cron_step_Cons)
  qed
qed

lemma fold_cron_step_memory:
  assumes "progress (snd st) = progress (snd st')" and "fst st = fst st'"
  shows "fst (fold (cron_step now) es st) = fst (fold (cron_step now) es st')
         \<and> progress (snd (fold (cron_step now) es st))
             = progress (snd (fold (cron_step now) es st'))"
  using assms
proof (induction es arbitrary: st st')
  case Nil
  then show ?case by simp
next
  case (Cons e es)
  obtain n w where st: "st = (n, w)" by (cases st)
  obtain n' w' where st': "st' = (n', w')" by (cases st')
  from Cons.prems st st' have eq: "progress w = progress w'" "n' = n" by simp_all
  have "fst (cron_step now e st) = fst (cron_step now e st')"
    and "progress (snd (cron_step now e st)) = progress (snd (cron_step now e st'))"
    using cron_step_memory [OF eq(1)] st st' eq(2) by simp_all
  then show ?case
    using Cons.IH [of "cron_step now e st" "cron_step now e st'"] by simp
qed

lemma processCronJob_memory:
  "fst (processCronJob now (w\<lparr>fs := f\<rparr>)) = fst (processCronJob now w)
   \<and> progress (snd (processCronJob now (w\<lparr>fs := f\<rparr>))) = progress (snd (processCronJob now w))"
proof -
  have "fst (fold (cron_step now) (queue w) (0, w\<lparr>fs := f\<rparr>)) = fst (fold (cron_step now) (queue w) (0, w))
        \<and> progress (snd (fold (cron_step now) (queue w) (0, w\<lparr>fs := f\<rparr>)))
            = progress (snd (fold (cron_step now) (queue w) (0, w)))"
    by (rule fold_cron_step_memory) simp_all
  then show ?thesis
    by (simp add: processCronJob_def case_prod_beta)
qed

lemma console_processCronJob_fails:
  assumes "write_fails (fs w)"
  shows "\<exists>pre. console (snd (processCronJob now w)) = pre @ [''Error saving'', ''Cron job processed'']"
proof -
  let ?w1 = "snd (fold (cron_step now) (queue w) (0, w))"
  have "write_fails (fs (?w1\<lparr>queue := []\<rparr>))"
    using assms by simp
  then have "console (saveToDisk (?w1\<lparr>queue := []\<rparr>)) = console ?w1 @ [''Error saving'']"
    by (simp add: saveToDisk_fails_console)
  then show ?thesis
    by (simp add: processCronJob_def case_prod_beta)
qed

text \<open>
  C4, as the claim states it, fails. On the empty store whose queue file cannot be
  written, the enqueue route answers \<open>ok\<close> with the item; the item is in the queue in
  memory, the files are untouched, and the only trace of the error is a console line.
\<close>

theorem write_error_not_surfaced:
  "post_progress_queue \<lparr>videoId = ''v'', userId = ''u'', progressSeconds = Finite 42\<rparr> ''id1'' ''t1''
     (empty_world\<lparr>fs := empty_dir\<lparr>queueWriteFails := True\<rparr>\<rparr>)
   = (Inr \<lparr>videoId = ''v'', userId = ''u'', progressSeconds = Finite 42, item_id = ''id1'', createdAt = ''t1''\<rparr>,
      \<lparr>queue = [(''u-v'', [\<lparr>videoId = ''v'', userId = ''u'', progressSeconds = Finite 42, item_id = ''id1'', createdAt = ''t1''\<rparr>])],
       progress = [],
       fs = empty_dir\<lparr>queueWriteFails := True\<rparr>,
       console = [''Error saving'']\<rparr>)"
  by (simp add: route_defs method_defs empty_world_def empty_dir_def)

text \<open>
  C4, amended. On a file system where a write of \<^const>\<open>saveToDisk\<close> fails, the error is
  caught and logged (\<open>Error saving\<close>) and no error reaches the caller: the enqueue route
  answers with the item, the merge with its counters, the reset with \<open>ok\<close>, each as on
  any other file system \<open>f\<close>; the queue and the progress table in memory are those the
  operation produces on any other file system, so nothing is rolled back.
\<close>

theorem write_failure_logged_not_raised:
  assumes "write_fails (fs w)"
  shows
    "fst (post_progress_queue body i t w) =
       (if body_schema body
        then Inr \<lparr>videoId = Body.videoId body, userId = Body.userId body,
                  progressSeconds = progressSeconds body, item_id = i, createdAt = t\<rparr>
        else Inl ValidationError)
     \<and> queue (snd (addToQueue body i t w)) = queue (snd (addToQueue body i t (w\<lparr>fs := f\<rparr>)))
     \<and> progress (snd (addToQueue body i t w)) = progress (snd (addToQueue body i t (w\<lparr>fs := f\<rparr>)))
     \<and> console (snd (addToQueue body i t w)) = console w @ [''Error saving'']
     \<and> fst (post_progress_run_cron now w) = fst (post_progress_run_cron now (w\<lparr>fs := f\<rparr>))
     \<and> queue (snd (processCronJob now w)) = queue (snd (processCronJob now (w\<lparr>fs := f\<rparr>)))
     \<and> progress (snd (processCronJob now w)) = progress (snd (processCronJob now (w\<lparr>fs := f\<rparr>)))
     \<and> (\<exists>pre. console (snd (processCronJob now w)) = pre @ [''Error saving'', ''Cron job processed''])
     \<and> fst (post_reset w) = True
     \<and> queue (reset w) = [] \<and> progress (reset w) = []
     \<and> console (reset w) = console w @ [''Error saving'', ''Storage reset'']"
proof -
  have enq: "console (snd (addToQueue body i t w)) = console w @ [''Error saving'']"
    using assms by (simp add: addToQueue_def Let_def saveToDisk_fails_console)
  have rst: "console (reset w) = console w @ [''Error saving'', ''Storage reset'']"
    using assms by (simp add: reset_def saveToDisk_fails_console)
  show ?thesis
    using enq rst console_processCronJob_fails [OF assms, of now] processCronJob_memory [where now = now and w = w and f = f]
    by (simp add: post_progress_queue_def post_progress_run_cron_def post_reset_def reset_def
        case_prod_beta)
qed

theorem write_failure_logged_not_raised_witness:
  "write_fails (fs failing_disk_world)
   \<and> (fst (post_progress_queue sample_body ''id1'' ''t1'' failing_disk_world) =
       (if body_schema sample_body
        then Inr \<lparr>videoId = Body.videoId sample_body, userId = Body.userId sample_body,
                  progressSeconds = progressSeconds sample_body, item_id = ''id1'',
                  createdAt = ''t1''\<rparr>
        else Inl ValidationError)
     \<and> queue (snd (addToQueue sample_body ''id1'' ''t1'' failing_disk_world))
         = queue (snd (addToQueue sample_body ''id1'' ''t1'' (failing_disk_world\<lparr>fs := empty_dir\<rparr>)))
     \<and> progress (snd (addToQueue sample_body ''id1'' ''t1'' failing_disk_world))
         = progress (snd (addToQueue sample_body ''id1'' ''t1'' (failing_disk_world\<lparr>fs := empty_dir\<rparr>)))
     \<and> console (snd (addToQueue sample_body ''id1'' ''t1'' failing_disk_world))
         = console failing_disk_world @ [''Error saving'']
     \<and> fst (post_progress_run_cron (\<lambda>key. ''t2'') failing_disk_world)
         = fst (post_progress_run_cron (\<lambda>key. ''t2'') (failing_disk_world\<lparr>fs := empty_dir\<rparr>))
     \<and> queue (snd (processCronJob (\<lambda>key. ''t2'') failing_disk_world))
         = queue (snd (processCronJob (\<lambda>key. ''t2'') (failing_disk_world\<lparr>fs := empty_dir\<rparr>)))
     \<and> progress (snd (processCronJob (\<lambda>key. ''t2'') failing_disk_world))
         = progress (snd (processCronJob (\<lambda>key. ''t2'') (failing_disk_world\<lparr>fs := empty_dir\<rparr>)))
     \<and> (\<exists>pre. console (snd (processCronJob (\<lambda>key. ''t2'') failing_disk_world))
           = pre @ [''Error saving'', ''Cron job processed''])
     \<and> fst (post_reset failing_disk_world) = True
     \<and> queue (reset failing_disk_world) = [] \<and> progress (reset failing_disk_world) = []
     \<and> console (reset failing_disk_world)
         = console failing_disk_world @ [''Error saving'', ''Storage reset''])"
proof -
  have h: "write_fails (fs failing_disk_world)"
    by (simp add: write_fails_def failing_disk_world_def)
  from h write_failure_logged_not_raised
    [OF h, where body = sample_body and i = "''id1''" and t = "''t1''" and f = empty_dir
       and now = "\<lambda>key. ''t2''"]
  show ?thesis by (rule conjI)
qed

section \<open>Committed values under the operations\<close>

lemma slot_step_mono:
  assumes "cur = Some r"
  shows "\<exists>r'. slot_step now t e cur = Some r' \<and> furthestSeconds r \<le> furthestSeconds r'"
  using assms
  by (cases e) (auto simp: slot_step_def Let_def split: list.splits)

lemma fold_slot_step_mono:
  assumes "cur = Some r"
  shows "\<exists>r'. fold (slot_step now t) es cur = Some r' \<and> furthestSeconds r \<le> furthestSeconds r'"
  using assms
proof (induction es arbitrary: cur r)
  case Nil
  then show ?case by simp
next
  case (Cons e es)
  from slot_step_mono [OF Cons.prems] obtain r1
    where r1: "slot_step now t e cur = Some r1" "furthestSeconds r \<le> furthestSeconds r1"
    by blast
  from Cons.IH [OF r1(1)] obtain r2
    where "fold (slot_step now t) es (slot_step now t e cur) = Some r2"
      "furthestSeconds r1 \<le> furthestSeconds r2"
    by blast
  with r1(2) show ?case by auto
qed

lemma progress_queue_ops [simp]:
  "progress (clearQueue w) = progress w"
  "progress (clearQueueForKey uid vid w) = progress w"
  by (simp_all add: clearQueue_def clearQueueForKey_def)

lemma apply_op_mono:
  assumes "\<not> overwrites op" and "map_of (progress w) key = Some r"
  shows "\<exists>r'. map_of (progress (apply_op op w)) key = Some r'
              \<and> furthestSeconds r \<le> furthestSeconds r'"
proof (cases op)
  case (UpdateProgressIfHigher now uid vid seconds)
  with assms(2) show ?thesis
    by (auto simp: updateProgressIfHigher_def Let_def update_conv')
next
  case (ProcessCronJob now)
  with fold_slot_step_mono [OF assms(2), of now key "queue w"] show ?thesis
    by (simp add: lookup_fold_cron_step)
qed (use assms in simp_all)

lemma run_mono:
  assumes "list_all (\<lambda>op. \<not> overwrites op) ops" and "map_of (progress w) key = Some r"
  shows "\<exists>r'. map_of (progress (run ops w)) key = Some r'
              \<and> furthestSeconds r \<le> furthestSeconds r'"
  using assms
proof (induction ops arbitrary: w r)
  case Nil
  then show ?case by (simp add: run_def)
next
  case (Cons op ops)
  from Cons.prems have ok: "\<not> overwrites op" and rest: "list_all (\<lambda>op. \<not> overwrites op) ops"
    by simp_all
  from apply_op_mono [OF ok Cons.prems(2)] obtain r1
    where r1: "map_of (progress (apply_op op w)) key = Some r1"
      "furthestSeconds r \<le> furthestSeconds r1"
    by blast
  from Cons.IH [OF rest r1(1)] obtain r2
    where "map_of (progress (run ops (apply_op op w))) key = Some r2"
      "furthestSeconds r1 \<le> furthestSeconds r2"
    by blast
  with r1(2) show ?case by (auto simp: run_def)
qed

text \<open>
  C3, amended. Over every sequence of operations other than a direct \<^const>\<open>setProgress\<close>
  and \<^const>\<open>reset\<close> (so over every sequence of enqueues, merges, conditional updates and
  queue clearings), from every state, a committed record stays in the table and its
  \<open>furthestSeconds\<close> does not decrease.
\<close>

theorem committed_value_never_lowered:
  assumes "list_all (\<lambda>op. \<not> overwrites op) ops" and "getProgress w uid vid = Some r"
  shows "\<exists>r'. getProgress (run ops w) uid vid = Some r'
              \<and> furthestSeconds r \<le> furthestSeconds r'"
  using run_mono [OF assms(1), of w "key_of uid vid" r] assms(2)
  by (simp add: getProgress_def)

text \<open>
  C3, as the claim states it, fails: \<^const>\<open>setProgress\<close> is a public method that writes
  the table without comparing, and \<^const>\<open>reset\<close> empties the table. After a committed
  value of 10, \<open>setProgress\<close> with 5 leaves 5, and \<open>reset\<close> leaves no record.
\<close>

theorem setProgress_lowers_committed_value:
  "getProgress (run [SetProgress ''t1'' ''u'' ''v'' (Finite 10)] empty_world) ''u'' ''v''
     = Some \<lparr>ProgressRecord.videoId = Some ''v'', ProgressRecord.userId = ''u'',
             furthestSeconds = Finite 10, updatedAt = ''t1''\<rparr>
   \<and> getProgress (run [SetProgress ''t1'' ''u'' ''v'' (Finite 10), SetProgress ''t2'' ''u'' ''v'' (Finite 5)] empty_world)
       ''u'' ''v''
     = Some \<lparr>ProgressRecord.videoId = Some ''v'', ProgressRecord.userId = ''u'',
             furthestSeconds = Finite 5, updatedAt = ''t2''\<rparr>
   \<and> getProgress (run [SetProgress ''t1'' ''u'' ''v'' (Finite 10), Reset] empty_world) ''u'' ''v'' = None"
  by (simp add: run_def method_defs empty_world_def empty_dir_def)

theorem committed_value_never_lowered_witness:
  "list_all (\<lambda>op. \<not> overwrites op)
     [AddToQueue sample_body ''id1'' ''t1'', ProcessCronJob (\<lambda>key. ''t2''),
      UpdateProgressIfHigher ''t3'' ''u'' ''v'' (Finite 7), ClearQueue]
   \<and> getProgress (run [SetProgress ''t0'' ''u'' ''v'' (Finite 10)] empty_world) ''u'' ''v''
       = Some \<lparr>ProgressRecord.videoId = Some ''v'', ProgressRecord.userId = ''u'',
               furthestSeconds = Finite 10, updatedAt = ''t0''\<rparr>
   \<and> (\<exists>r'. getProgress
              (run [AddToQueue sample_body ''id1'' ''t1'', ProcessCronJob (\<lambda>key. ''t2''),
                    UpdateProgressIfHigher ''t3'' ''u'' ''v'' (Finite 7), ClearQueue]
                 (run [SetProgress ''t0'' ''u'' ''v'' (Finite 10)] empty_world)) ''u'' ''v'' = Some r'
            \<and> furthestSeconds \<lparr>ProgressRecord.videoId = Some ''v'', ProgressRecord.userId = ''u'',
                                furthestSeconds = Finite 10, updatedAt = ''t0''\<rparr>
                \<le> furthestSeconds r')"
proof -
  have h1: "list_all (\<lambda>op. \<not> overwrites op)
     [AddToQueue sample_body ''id1'' ''t1'', ProcessCronJob (\<lambda>key. ''t2''),
      UpdateProgressIfHigher ''t3'' ''u'' ''v'' (Finite 7), ClearQueue]"
    by simp
  have h2: "getProgress (run [SetProgress ''t0'' ''u'' ''v'' (Finite 10)] empty_world) ''u'' ''v''
       = Some \<lparr>ProgressRecord.videoId = Some ''v'', ProgressRecord.userId = ''u'',
               furthestSeconds = Finite 10, updatedAt = ''t0''\<rparr>"
    by (simp add: run_def method_defs empty_world_def empty_dir_def)
  from h1 h2 committed_value_never_lowered [OF h1 h2]
  show ?thesis by (intro conjI)
qed

section \<open>Keys and their segments\<close>

lemma split_no_sep:
  "sep \<notin> set (fst (split sep s)) \<and> (\<forall>seg \<in> set (snd (split sep s)). sep \<notin> set seg)"
  by (induction s) (auto simp: case_prod_beta)

lemma split_plain: "sep \<notin> set s \<Longrightarrow> split sep s = (s, [])"
  by (induction s) (auto simp: case_prod_beta)

lemma split_at_first:
  "sep \<notin> set u \<Longrightarrow> split sep (u @ sep # v) = (u, fst (split sep v) # snd (split sep v))"
  by (induction u) (auto simp: case_prod_beta)

lemma split_first_segment: "fst (split sep s) = takeWhile (\<lambda>c. c \<noteq> sep) s"
  by (induction s) (auto simp: case_prod_beta)

lemma split_other_segments:
  "sep \<in> set s \<Longrightarrow>
   snd (split sep s) =
     fst (split sep (drop 1 (dropWhile (\<lambda>c. c \<noteq> sep) s)))
       # snd (split sep (drop 1 (dropWhile (\<lambda>c. c \<noteq> sep) s)))"
  by (induction s) (auto simp: case_prod_beta)

lemma cron_pair_segments:
  assumes "CHR ''-'' \<in> set key"
  shows "cron_pair key = (first_segment key, Some (first_segment (after_hyphen key)))"
  using split_other_segments [OF assms]
  by (simp add: cron_pair_def first_segment_def after_hyphen_def case_prod_beta
      split_first_segment)

lemma commit_key_segments:
  assumes "CHR ''-'' \<in> set key"
  shows "commit_key key = key_of (first_segment key) (first_segment (after_hyphen key))"
  by (simp add: commit_key_def cron_pair_segments [OF assms])

lemma hyphen_in_key_of: "CHR ''-'' \<in> set (key_of uid vid)"
  by (simp add: key_of_def)

lemma cron_pair_no_hyphen:
  "CHR ''-'' \<notin> set (fst (cron_pair key))
   \<and> CHR ''-'' \<notin> set (interpolate (snd (cron_pair key)))"
proof -
  have "\<forall>seg \<in> set (snd (split CHR ''-'' key)). CHR ''-'' \<notin> set seg"
    using split_no_sep [of "CHR ''-''" key] by blast
  then have "CHR ''-'' \<notin> set (interpolate (snd (cron_pair key)))"
    by (cases "snd (split CHR ''-'' key)") (simp_all add: cron_pair_def case_prod_beta)
  moreover have "CHR ''-'' \<notin> set (fst (cron_pair key))"
    using split_no_sep [of "CHR ''-''" key] by (simp add: cron_pair_def case_prod_beta)
  ultimately show ?thesis by simp
qed

lemma count_hyphen_commit_key: "count_list (commit_key key) CHR ''-'' = 1"
  using cron_pair_no_hyphen [of key]
  by (simp add: commit_key_def key_of_def case_prod_beta)

lemma count_hyphen_key_of:
  "count_list (key_of uid vid) CHR ''-''
     = count_list uid CHR ''-'' + 1 + count_list vid CHR ''-''"
  by (simp add: key_of_def)

lemma commit_key_neq_hyphenated:
  assumes "CHR ''-'' \<in> set vid"
  shows "commit_key key \<noteq> key_of uid vid"
proof
  assume "commit_key key = key_of uid vid"
  then have "count_list (key_of uid vid) CHR ''-'' = 1"
    using count_hyphen_commit_key [of key] by simp
  moreover have "0 < count_list vid CHR ''-''"
    using assms count_list_0_iff [of vid "CHR ''-''"] by auto
  ultimately show False
    by (simp add: count_hyphen_key_of)
qed

lemma cron_pair_plain:
  assumes "CHR ''-'' \<notin> set uid" and "CHR ''-'' \<notin> set vid"
  shows "cron_pair (key_of uid vid) = (uid, Some vid)"
  using assms by (simp add: cron_pair_def key_of_def split_at_first split_plain)

lemma commit_key_plain:
  assumes "CHR ''-'' \<notin> set uid" and "CHR ''-'' \<notin> set vid"
  shows "commit_key (key_of uid vid) = key_of uid vid"
  by (simp add: commit_key_def cron_pair_plain [OF assms])

lemma key_of_inject:
  assumes "CHR ''-'' \<notin> set u1" and "CHR ''-'' \<notin> set u2" and "key_of u1 v1 = key_of u2 v2"
  shows "u1 = u2 \<and> v1 = v2"
proof -
  have "split CHR ''-'' (key_of u1 v1) = split CHR ''-'' (key_of u2 v2)"
    using assms(3) by simp
  then have "u1 = u2"
    using assms(1,2) by (simp add: key_of_def split_at_first)
  with assms(3) show ?thesis
    by (simp add: key_of_def)
qed

section \<open>What the merge writes\<close>

lemma slot_step_other:
  "commit_key key \<noteq> t \<Longrightarrow> slot_step now t (key, items) cur = cur"
  by (simp add: slot_step_def)

lemma fold_slot_step_untouched:
  assumes "\<And>key. commit_key key \<noteq> t"
  shows "fold (slot_step now t) es cur = cur"
proof (induction es)
  case Nil
  show ?case by simp
next
  case (Cons e es)
  then show ?case
    by (cases e) (simp add: slot_step_other [OF assms])
qed

lemma fold_slot_step_update:
  assumes "commit_key key \<noteq> t"
  shows "fold (slot_step now t) (AList.update key items es) cur = fold (slot_step now t) es cur"
proof (induction es arbitrary: cur)
  case Nil
  show ?case by (simp add: slot_step_other [OF assms])
next
  case (Cons e es)
  obtain k its where e: "e = (k, its)" by (cases e)
  show ?case
  proof (cases "k = key")
    case True
    with e assms show ?thesis by (simp add: slot_step_other)
  next
    case False
    with e Cons.IH show ?thesis by simp
  qed
qed

lemma Math_max_fold_not_NaN:
  assumes "NaN \<notin> set xs" and "acc \<noteq> NaN"
  shows "fold (\<lambda>x highest. if x = NaN \<or> highest = NaN then NaN
                             else if x > highest then x else highest) xs acc \<noteq> NaN"
  using assms by (induction xs arbitrary: acc) auto

lemma Math_max_fold_ge:
  assumes "NaN \<notin> set xs" and "acc \<noteq> NaN" and "x \<in> set xs \<or> x \<le> acc"
  shows "x \<le> fold (\<lambda>x highest. if x = NaN \<or> highest = NaN then NaN
                               else if x > highest then x else highest) xs acc"
  using assms
proof (induction xs arbitrary: acc)
  case Nil
  then show ?case by simp
next
  case (Cons y ys)
  let ?acc = "if y > acc then y else acc"
  from Cons.prems have y: "y \<noteq> NaN" and ys: "NaN \<notin> set ys" by auto
  have acc': "?acc \<noteq> NaN"
    using y Cons.prems(2) by simp
  have "x \<in> set ys \<or> x \<le> ?acc"
  proof (cases "x \<in> set ys")
    case True
    then show ?thesis by simp
  next
    case False
    with Cons.prems(3) consider "x = y" | "x \<le> acc" by auto
    then have "x \<le> ?acc"
    proof cases
      case 1
      with number_linear [OF y Cons.prems(2)] show ?thesis by auto
    next
      case 2
      then show ?thesis by (auto intro: order_trans less_imp_le)
    qed
    then show ?thesis by simp
  qed
  from Cons.IH [OF ys acc' this] y Cons.prems(2) show ?case by simp
qed

lemma Math_max_not_NaN: "NaN \<notin> set xs \<Longrightarrow> Math_max xs \<noteq> NaN"
  unfolding Math_max_def by (rule Math_max_fold_not_NaN) simp_all

lemma Math_max_ge: "NaN \<notin> set xs \<Longrightarrow> x \<in> set xs \<Longrightarrow> x \<le> Math_max xs"
  unfolding Math_max_def by (rule Math_max_fold_ge) simp_all

text \<open>An entry of the progress table that is absent or holds a value other than \<^verbatim>\<open>NaN\<close>.\<close>

lemma slot_step_not_NaN:
  assumes "\<forall>it \<in> set (snd e). progressSeconds it \<noteq> NaN"
    and "\<forall>c. cur = Some c \<longrightarrow> furthestSeconds c \<noteq> NaN"
  shows "\<forall>c. slot_step now t e cur = Some c \<longrightarrow> furthestSeconds c \<noteq> NaN"
proof -
  obtain key items where e: "e = (key, items)" by (cases e)
  with assms(1) have "NaN \<notin> set (map progressSeconds items)" by auto
  then have "Math_max (map progressSeconds items) \<noteq> NaN"
    by (rule Math_max_not_NaN)
  with assms(2) e show ?thesis
    by (auto simp: slot_step_def Let_def split: if_splits)
qed

lemma slot_step_reaches:
  assumes "it \<in> set items"
    and "\<forall>it \<in> set items. progressSeconds it \<noteq> NaN"
    and "\<forall>c. cur = Some c \<longrightarrow> furthestSeconds c \<noteq> NaN"
  shows "\<exists>r. slot_step now (commit_key key) (key, items) cur = Some r
             \<and> progressSeconds it \<le> furthestSeconds r"
proof -
  let ?m = "Math_max (map progressSeconds items)"
  from assms(2) have free: "NaN \<notin> set (map progressSeconds items)" by auto
  have m: "?m \<noteq> NaN"
    using free by (rule Math_max_not_NaN)
  have ge: "progressSeconds it \<le> ?m"
    using free assms(1) by (intro Math_max_ge) simp_all
  from assms(1) have ne: "items \<noteq> []" by auto
  show ?thesis
  proof (cases cur)
    case None
    with ne ge show ?thesis by (simp add: slot_step_def Let_def)
  next
    case (Some c)
    with assms(3) have c: "furthestSeconds c \<noteq> NaN" by simp
    show ?thesis
    proof (cases "?m > furthestSeconds c")
      case True
      with Some ne ge show ?thesis by (simp add: slot_step_def Let_def)
    next
      case False
      with number_linear [OF m c] have "?m \<le> furthestSeconds c" by auto
      with ge have "progressSeconds it \<le> furthestSeconds c" by (rule order_trans)
      with Some ne False show ?thesis by (simp add: slot_step_def Let_def)
    qed
  qed
qed

lemma fold_slot_step_reaches:
  assumes "(key, items) \<in> set es" and "it \<in> set items"
    and "\<forall>e \<in> set es. \<forall>it \<in> set (snd e). progressSeconds it \<noteq> NaN"
    and "\<forall>c. cur = Some c \<longrightarrow> furthestSeconds c \<noteq> NaN"
  shows "\<exists>r. fold (slot_step now (commit_key key)) es cur = Some r
             \<and> progressSeconds it \<le> furthestSeconds r"
  using assms(1,3,4)
proof (induction es arbitrary: cur)
  case Nil
  then show ?case by simp
next
  case (Cons e es)
  from Cons.prems(2) have e_free: "\<forall>it \<in> set (snd e). progressSeconds it \<noteq> NaN"
    and es_free: "\<forall>e \<in> set es. \<forall>it \<in> set (snd e). progressSeconds it \<noteq> NaN"
    by simp_all
  show ?case
  proof (cases "e = (key, items)")
    case True
    with e_free have "\<forall>it \<in> set items. progressSeconds it \<noteq> NaN" by simp
    from slot_step_reaches [OF assms(2) this Cons.prems(3), of now key] obtain r
      where r: "slot_step now (commit_key key) (key, items) cur = Some r"
        "progressSeconds it \<le> furthestSeconds r"
      by blast
    from fold_slot_step_mono [OF r(1), of now "commit_key key" es] obtain r'
      where "fold (slot_step now (commit_key key)) es
               (slot_step now (commit_key key) (key, items) cur) = Some r'"
        "furthestSeconds r \<le> furthestSeconds r'"
      by blast
    with r(2) True show ?thesis by (auto intro: order_trans)
  next
    case False
    with Cons.prems(1) have mem: "(key, items) \<in> set es" by simp
    from slot_step_not_NaN [OF e_free Cons.prems(3)]
    have "\<forall>c. slot_step now (commit_key key) e cur = Some c \<longrightarrow> furthestSeconds c \<noteq> NaN" .
    from Cons.IH [OF mem es_free this] show ?thesis by simp
  qed
qed

lemma update_entries:
  assumes "\<forall>e \<in> set es. P e" and "P (key, v)"
  shows "\<forall>e \<in> set (AList.update key v es). P e"
  using assms by (induction es) auto

lemma update_entry_in_set: "(key, v) \<in> set (AList.update key v es)"
  by (induction es) auto

section \<open>The pair the merge commits under\<close>

text \<open>
  C10. For every user id and every video id that contains a hyphen, the merge takes the
  pair back from the key by \<^verbatim>\<open>split('-')\<close> and keeps the first two elements: the text of
  the key before its first hyphen, and the first element of the text after that hyphen. This
  pair differs from the pair the sample was enqueued for, and so does its key. After a
  sample for the pair is enqueued and merged, in a store without \<^verbatim>\<open>NaN\<close>, a record of at
  least the sample's value stands under the key of the derived pair, and
  \<^const>\<open>getProgress\<close> for the original pair, which had no record, still has none: the
  route reports \<open>furthestSeconds\<close> 0.
\<close>

theorem hyphenated_video_id_commits_elsewhere:
  assumes "CHR ''-'' \<in> set vid" and "getProgress w uid vid = None"
    and "nan_free w" and "p \<noteq> NaN"
  shows "cron_pair (key_of uid vid)
           = (first_segment (key_of uid vid),
              Some (first_segment (after_hyphen (key_of uid vid))))
     \<and> cron_pair (key_of uid vid) \<noteq> (uid, Some vid)
     \<and> key_of (first_segment (key_of uid vid)) (first_segment (after_hyphen (key_of uid vid)))
         \<noteq> key_of uid vid
     \<and> getProgress
          (enqueue_then_merge \<lparr>videoId = vid, userId = uid, progressSeconds = p\<rparr> i t now w)
          uid vid = None
     \<and> furthest_furthestSeconds
          (get_progress_furthest
             (enqueue_then_merge \<lparr>videoId = vid, userId = uid, progressSeconds = p\<rparr> i t now w)
             uid vid) = Finite 0
     \<and> (\<exists>r. getProgress
               (enqueue_then_merge \<lparr>videoId = vid, userId = uid, progressSeconds = p\<rparr> i t now w)
               (first_segment (key_of uid vid)) (first_segment (after_hyphen (key_of uid vid)))
             = Some r
            \<and> p \<le> furthestSeconds r)"
proof -
  let ?body = "\<lparr>videoId = vid, userId = uid, progressSeconds = p\<rparr>"
  let ?key = "key_of uid vid"
  let ?w1 = "snd (addToQueue ?body i t w)"
  let ?w2 = "enqueue_then_merge ?body i t now w"
  let ?item = "fst (addToQueue ?body i t w)"
  let ?bucket = "getQueueItems w uid vid @ [?item]"
  have segs: "cron_pair ?key = (first_segment ?key, Some (first_segment (after_hyphen ?key)))"
    by (rule cron_pair_segments [OF hyphen_in_key_of])
  have ckey: "commit_key ?key = key_of (first_segment ?key) (first_segment (after_hyphen ?key))"
    by (rule commit_key_segments [OF hyphen_in_key_of])
  have pair: "cron_pair ?key \<noteq> (uid, Some vid)"
  proof
    assume "cron_pair ?key = (uid, Some vid)"
    with cron_pair_no_hyphen [of ?key] have "CHR ''-'' \<notin> set vid" by simp
    with assms(1) show False by simp
  qed
  have other: "key_of (first_segment ?key) (first_segment (after_hyphen ?key)) \<noteq> ?key"
    using commit_key_neq_hyphenated [OF assms(1), of ?key uid] ckey by simp
  have lookup: "map_of (progress ?w2) k
      = fold (slot_step now k) (queue ?w1) (map_of (progress w) k)" for k
    by (simp add: enqueue_then_merge_def lookup_fold_cron_step)
  have "map_of (progress ?w2) ?key = map_of (progress w) ?key"
    unfolding lookup
    by (rule fold_slot_step_untouched) (rule commit_key_neq_hyphenated [OF assms(1)])
  with assms(2) have none: "getProgress ?w2 uid vid = None"
    by (simp add: getProgress_def)
  then have zero: "furthest_furthestSeconds (get_progress_furthest ?w2 uid vid) = Finite 0"
    by (simp add: get_progress_furthest_def)
  have queue_free: "\<forall>e \<in> set (queue w). \<forall>it \<in> set (snd e). progressSeconds it \<noteq> NaN"
    and table_free: "\<forall>e \<in> set (progress w). furthestSeconds (snd e) \<noteq> NaN"
    using assms(3) by (simp_all add: nan_free_def list_all_iff)
  have bucket_free: "\<forall>it \<in> set ?bucket. progressSeconds it \<noteq> NaN"
  proof (cases "map_of (queue w) ?key")
    case None
    with assms(4) show ?thesis by (simp add: getQueueItems_def)
  next
    case (Some items)
    then have "(?key, items) \<in> set (queue w)" by (rule map_of_SomeD)
    with queue_free have "\<forall>it \<in> set items. progressSeconds it \<noteq> NaN" by auto
    with Some assms(4) show ?thesis by (simp add: getQueueItems_def)
  qed
  have q1: "queue ?w1 = AList.update ?key ?bucket (queue w)"
    by (simp add: getQueueItems_def)
  have q1_free: "\<forall>e \<in> set (queue ?w1). \<forall>it \<in> set (snd e). progressSeconds it \<noteq> NaN"
    unfolding q1 using queue_free bucket_free by (intro update_entries) simp_all
  have cur_free: "\<forall>c. map_of (progress w) (commit_key ?key) = Some c
                    \<longrightarrow> furthestSeconds c \<noteq> NaN"
  proof (intro allI impI)
    fix c
    assume "map_of (progress w) (commit_key ?key) = Some c"
    then have "(commit_key ?key, c) \<in> set (progress w)" by (rule map_of_SomeD)
    with table_free show "furthestSeconds c \<noteq> NaN" by auto
  qed
  have mem: "(?key, ?bucket) \<in> set (queue ?w1)"
    unfolding q1 by (rule update_entry_in_set)
  have "?item \<in> set ?bucket" by simp
  from fold_slot_step_reaches [OF mem this q1_free cur_free, of now]
  have "\<exists>r. map_of (progress ?w2) (commit_key ?key) = Some r \<and> p \<le> furthestSeconds r"
    unfolding lookup by simp
  then have reach: "\<exists>r. getProgress ?w2 (first_segment ?key) (first_segment (after_hyphen ?key))
                          = Some r \<and> p \<le> furthestSeconds r"
    by (simp add: getProgress_def ckey)
  from segs pair other none zero reach show ?thesis by (intro conjI)
qed

theorem hyphenated_video_id_commits_elsewhere_witness:
  "CHR ''-'' \<in> set ''yt-abc123''
   \<and> getProgress empty_world ''test-user-1'' ''yt-abc123'' = None
   \<and> nan_free empty_world
   \<and> Finite 42 \<noteq> NaN
   \<and> cron_pair (key_of ''test-user-1'' ''yt-abc123'')
       = (first_segment (key_of ''test-user-1'' ''yt-abc123''),
          Some (first_segment (after_hyphen (key_of ''test-user-1'' ''yt-abc123''))))
   \<and> cron_pair (key_of ''test-user-1'' ''yt-abc123'') \<noteq> (''test-user-1'', Some ''yt-abc123'')
   \<and> key_of (first_segment (key_of ''test-user-1'' ''yt-abc123''))
         (first_segment (after_hyphen (key_of ''test-user-1'' ''yt-abc123'')))
       \<noteq> key_of ''test-user-1'' ''yt-abc123''
   \<and> getProgress
        (enqueue_then_merge
           \<lparr>videoId = ''yt-abc123'', userId = ''test-user-1'', progressSeconds = Finite 42\<rparr>
           ''id1'' ''t1'' (\<lambda>key. ''t2'') empty_world)
        ''test-user-1'' ''yt-abc123'' = None
   \<and> furthest_furthestSeconds
        (get_progress_furthest
           (enqueue_then_merge
              \<lparr>videoId = ''yt-abc123'', userId = ''test-user-1'', progressSeconds = Finite 42\<rparr>
              ''id1'' ''t1'' (\<lambda>key. ''t2'') empty_world)
           ''test-user-1'' ''yt-abc123'') = Finite 0
   \<and> (\<exists>r. getProgress
             (enqueue_then_merge
                \<lparr>videoId = ''yt-abc123'', userId = ''test-user-1'', progressSeconds = Finite 42\<rparr>
                ''id1'' ''t1'' (\<lambda>key. ''t2'') empty_world)
             (first_segment (key_of ''test-user-1'' ''yt-abc123''))
             (first_segment (after_hyphen (key_of ''test-user-1'' ''yt-abc123'')))
           = Some r
          \<and> Finite 42 \<le> furthestSeconds r)
   \<and> first_segment (key_of ''test-user-1'' ''yt-abc123'') = ''test''
   \<and> first_segment (after_hyphen (key_of ''test-user-1'' ''yt-abc123'')) = ''user''"
proof -
  have h1: "CHR ''-'' \<in> set ''yt-abc123''" by simp
  have h2: "getProgress empty_world ''test-user-1'' ''yt-abc123'' = None"
    by (simp add: getProgress_def empty_world_def)
  have h3: "nan_free empty_world"
    by (simp add: nan_free_def empty_world_def)
  have h4: "Finite 42 \<noteq> NaN" by simp
  have s1: "first_segment (key_of ''test-user-1'' ''yt-abc123'') = ''test''"
    by (simp add: first_segment_def key_of_def)
  have s2: "first_segment (after_hyphen (key_of ''test-user-1'' ''yt-abc123'')) = ''user''"
    by (simp add: first_segment_def after_hyphen_def key_of_def)
  from h1 h2 h3 h4 s1 s2 hyphenated_video_id_commits_elsewhere
    [OF h1 h2 h3 h4, where i = "''id1''" and t = "''t1''" and now = "\<lambda>key. ''t2''"]
  show ?thesis by blast
qed

section \<open>Pairs and keys\<close>

text \<open>
  C1, as the claim states it, fails: the pairs \<open>(a-b, c)\<close> and \<open>(a, b-c)\<close> are different
  and have the same key, and a sample enqueued for the first is in the pending bucket of
  the second.
\<close>

theorem distinct_pairs_share_a_key:
  "key_of ''a-b'' ''c'' = key_of ''a'' ''b-c''
   \<and> (''a-b'', ''c'') \<noteq> (''a'', ''b-c'')
   \<and> getQueueItems empty_world ''a'' ''b-c'' = []
   \<and> getQueueItems
        (snd (addToQueue \<lparr>videoId = ''c'', userId = ''a-b'', progressSeconds = Finite 42\<rparr>
                ''id1'' ''t1'' empty_world))
        ''a'' ''b-c''
       = [\<lparr>videoId = ''c'', userId = ''a-b'', progressSeconds = Finite 42, item_id = ''id1'',
           createdAt = ''t1''\<rparr>]"
  by (simp add: method_defs empty_world_def empty_dir_def)

text \<open>
  C1, amended. When the ids \<open>u1\<close>, \<open>v1\<close> and \<open>u2\<close> have no hyphen and the pairs
  \<open>(u1, v1)\<close> and \<open>(u2, v2)\<close> differ, their keys differ, and a sample enqueued for
  \<open>(u1, v1)\<close> changes neither the pending bucket nor the committed record of \<open>(u2, v2)\<close>,
  also not through the merge that follows.
\<close>

theorem hyphen_free_pairs_are_isolated:
  assumes "CHR ''-'' \<notin> set u1" and "CHR ''-'' \<notin> set v1" and "CHR ''-'' \<notin> set u2"
    and "(u1, v1) \<noteq> (u2, v2)"
  shows "key_of u1 v1 \<noteq> key_of u2 v2
     \<and> getQueueItems
          (snd (addToQueue \<lparr>videoId = v1, userId = u1, progressSeconds = p\<rparr> i t w)) u2 v2
         = getQueueItems w u2 v2
     \<and> getProgress
          (snd (addToQueue \<lparr>videoId = v1, userId = u1, progressSeconds = p\<rparr> i t w)) u2 v2
         = getProgress w u2 v2
     \<and> getProgress
          (enqueue_then_merge \<lparr>videoId = v1, userId = u1, progressSeconds = p\<rparr> i t now w) u2 v2
         = getProgress (snd (processCronJob now w)) u2 v2"
proof -
  let ?body = "\<lparr>videoId = v1, userId = u1, progressSeconds = p\<rparr>"
  have keys: "key_of u1 v1 \<noteq> key_of u2 v2"
    using key_of_inject [OF assms(1) assms(3), of v1 v2] assms(4) by auto
  have bucket: "getQueueItems (snd (addToQueue ?body i t w)) u2 v2 = getQueueItems w u2 v2"
    using keys by (simp add: getQueueItems_addToQueue)
  have table: "getProgress (snd (addToQueue ?body i t w)) u2 v2 = getProgress w u2 v2"
    by (simp add: getProgress_def)
  have "commit_key (key_of u1 v1) \<noteq> key_of u2 v2"
    using keys by (simp add: commit_key_plain [OF assms(1) assms(2)])
  then have "fold (slot_step now (key_of u2 v2))
               (AList.update (key_of u1 v1)
                  (getQueueItems w u1 v1 @ [fst (addToQueue ?body i t w)]) (queue w))
               (map_of (progress w) (key_of u2 v2))
             = fold (slot_step now (key_of u2 v2)) (queue w) (map_of (progress w) (key_of u2 v2))"
    by (rule fold_slot_step_update)
  then have merged: "getProgress (enqueue_then_merge ?body i t now w) u2 v2
      = getProgress (snd (processCronJob now w)) u2 v2"
    by (simp add: getProgress_def enqueue_then_merge_def lookup_fold_cron_step getQueueItems_def)
  from keys bucket table merged show ?thesis by (intro conjI)
qed

theorem hyphen_free_pairs_are_isolated_witness:
  "CHR ''-'' \<notin> set ''alice'' \<and> CHR ''-'' \<notin> set ''video1'' \<and> CHR ''-'' \<notin> set ''bob''
   \<and> (''alice'', ''video1'') \<noteq> (''bob'', ''video1'')
   \<and> key_of ''alice'' ''video1'' \<noteq> key_of ''bob'' ''video1''
   \<and> getQueueItems
        (snd (addToQueue \<lparr>videoId = ''video1'', userId = ''alice'', progressSeconds = Finite 42\<rparr>
                ''id1'' ''t1'' empty_world)) ''bob'' ''video1''
       = getQueueItems empty_world ''bob'' ''video1''
   \<and> getProgress
        (snd (addToQueue \<lparr>videoId = ''video1'', userId = ''alice'', progressSeconds = Finite 42\<rparr>
                ''id1'' ''t1'' empty_world)) ''bob'' ''video1''
       = getProgress empty_world ''bob'' ''video1''
   \<and> getProgress
        (enqueue_then_merge \<lparr>videoId = ''video1'', userId = ''alice'', progressSeconds = Finite 42\<rparr>
           ''id1'' ''t1'' (\<lambda>key. ''t2'') empty_world) ''bob'' ''video1''
       = getProgress (snd (processCronJob (\<lambda>key. ''t2'') empty_world)) ''bob'' ''video1''"
proof -
  have h1: "CHR ''-'' \<notin> set ''alice''" by simp
  have h2: "CHR ''-'' \<notin> set ''video1''" by simp
  have h3: "CHR ''-'' \<notin> set ''bob''" by simp
  have h4: "(''alice'', ''video1'') \<noteq> (''bob'', ''video1'')" by simp
  from h1 h2 h3 h4 hyphen_free_pairs_are_isolated
    [OF h1 h2 h3 h4, where p = "Finite 42" and i = "''id1''" and t = "''t1''" and now = "\<lambda>key. ''t2''"
       and w = empty_world]
  show ?thesis by blast
qed

section \<open>The merge on the ids the page sends\<close>

text \<open>
  C7. The merge is meant to create the committed record of a key that has a pending sample
  and no record. On the empty store, the sample of 42 seconds that the page sends (user
  \<open>test-user-1\<close>, video \<open>yt-abc123\<close>) is pending for its pair; after the merge the pair
  still has no committed record, the only record of the table stands under the key
  \<open>test-user\<close>, and the key is counted as raised.
\<close>

theorem merge_misses_demo_pair:
  "getQueueItems (snd (addToQueue demo_body ''id1'' ''t1'' empty_world))
       ''test-user-1'' ''yt-abc123''
     = [\<lparr>videoId = ''yt-abc123'', userId = ''test-user-1'', progressSeconds = Finite 42,
         item_id = ''id1'', createdAt = ''t1''\<rparr>]
   \<and> getProgress (snd (addToQueue demo_body ''id1'' ''t1'' empty_world))
       ''test-user-1'' ''yt-abc123'' = None
   \<and> getProgress (enqueue_then_merge demo_body ''id1'' ''t1'' (\<lambda>key. ''t2'') empty_world)
       ''test-user-1'' ''yt-abc123'' = None
   \<and> progress (enqueue_then_merge demo_body ''id1'' ''t1'' (\<lambda>key. ''t2'') empty_world)
     = [(''test-user'',
         \<lparr>ProgressRecord.videoId = Some ''user'', ProgressRecord.userId = ''test'',
          furthestSeconds = Finite 42, updatedAt = ''t2''\<rparr>)]
   \<and> updated (fst (processCronJob (\<lambda>key. ''t2'')
                      (snd (addToQueue demo_body ''id1'' ''t1'' empty_world)))) = 1"
  by (simp add: enqueue_then_merge_def demo_body_def method_defs empty_world_def empty_dir_def)

end
